theory Spec2Isabelle
  imports Main "HOL-Library.Word"
begin

unbundle bit_operations_syntax

section \<open>Data model\<close>

text \<open>
  A Go \<^verbatim>\<open>byte\<close> is an 8-bit word and a \<^verbatim>\<open>uint64\<close> a 64-bit word.
  \<^verbatim>\<open>type ID [rawLen]byte\<close> is a list of bytes whose length is \<open>rawLen\<close>; texts
  (\<^verbatim>\<open>[]byte\<close> and \<^verbatim>\<open>string\<close> values holding encoded identifiers) are lists of
  8-bit characters.
\<close>

type_synonym byte = "8 word"
type_synonym uint64 = "64 word"
type_synonym ID = "byte list"

definition rawLen :: nat where
  "rawLen = 15"

definition encodedLen :: nat where
  "encodedLen = 24"

definition charset :: string where
  "charset = ''0123456789abcdefghjkmnpqrstvwxyz''"

definition nilID :: ID where
  "nilID = replicate rawLen 0"

datatype error = ErrInvalidID | ErrUnsupportedType | CorruptInputError

text \<open>A run-time panic of the Go program, as opposed to a returned \<^verbatim>\<open>error\<close>.\<close>

datatype panic = SliceBoundsOutOfRange

section \<open>The decoding table\<close>

text \<open>
  \<^verbatim>\<open>init\<close> fills the 256-entry table \<^verbatim>\<open>dec\<close> with \<open>0xFF\<close> and then stores, for
  every index \<open>i\<close> of \<^verbatim>\<open>charset\<close>, the value \<open>i\<close> at position \<^verbatim>\<open>charset[i]\<close>.
  The table is a function from the indexing byte (a character) to a byte.
\<close>

fun init_loop :: "nat \<Rightarrow> string \<Rightarrow> (char \<Rightarrow> byte) \<Rightarrow> (char \<Rightarrow> byte)" where
  "init_loop i [] t = t"
| "init_loop i (c # cs) t = init_loop (Suc i) cs (t(c := of_nat i))"

definition init_table :: "string \<Rightarrow> char \<Rightarrow> byte" where
  "init_table cs = init_loop 0 cs (\<lambda>_. 0xFF)"

definition dec :: "char \<Rightarrow> byte" where
  "dec = init_table charset"

section \<open>Base-32 encoding of whole quanta\<close>

text \<open>
  \<^verbatim>\<open>encoding = base32.NewEncoding(charset).WithPadding(-1)\<close> is Go's standard
  \<^verbatim>\<open>encoding/base32\<close>. \<^verbatim>\<open>NewEncoding\<close> keeps the alphabet as the table
  \<^verbatim>\<open>enc.encode\<close> and builds \<^verbatim>\<open>enc.decodeMap\<close> with the same two loops as
  \<^verbatim>\<open>init\<close>. \<^verbatim>\<open>Encode\<close> turns every 5-byte quantum of the source into eight
  5-bit values and writes their alphabet characters; \<^verbatim>\<open>Decode\<close> maps every
  8-character quantum through the decode map, stops with a
  \<^verbatim>\<open>CorruptInputError\<close> at a character whose entry is \<open>0xFF\<close>, and packs the
  eight values into 5 bytes. Identifiers are 15 bytes and their texts 24 characters, so
  only whole quanta occur; a trailing partial quantum is left out of the model. So is
  the library's removal of carriage returns and line feeds before decoding: neither
  character is in the alphabet, and \<^verbatim>\<open>UnmarshalText\<close>, the only caller of
  \<^verbatim>\<open>decode\<close>, rejects a text that holds one before it decodes.
\<close>

definition enc_encode :: "byte \<Rightarrow> char" where
  "enc_encode b = charset ! unat b"

definition decodeMap :: "char \<Rightarrow> byte" where
  "decodeMap = init_table charset"

fun Encode :: "byte list \<Rightarrow> string" where
  "Encode (s0 # s1 # s2 # s3 # s4 # src) =
     (let b7 = s4 AND 0x1F;
          b6 = drop_bit 5 s4 OR (push_bit 3 s3 AND 0x1F);
          b5 = drop_bit 2 s3 AND 0x1F;
          b4 = drop_bit 7 s3 OR (push_bit 1 s2 AND 0x1F);
          b3 = (drop_bit 4 s2 AND 0x1F) OR (push_bit 4 s1 AND 0x1F);
          b2 = drop_bit 1 s1 AND 0x1F;
          b1 = (drop_bit 6 s1 AND 0x1F) OR (push_bit 2 s0 AND 0x1F);
          b0 = drop_bit 3 s0
      in enc_encode (b0 AND 31) # enc_encode (b1 AND 31) # enc_encode (b2 AND 31) #
         enc_encode (b3 AND 31) # enc_encode (b4 AND 31) # enc_encode (b5 AND 31) #
         enc_encode (b6 AND 31) # enc_encode (b7 AND 31) # Encode src)"
| "Encode _ = []"

fun Decode :: "string \<Rightarrow> error + byte list" where
  "Decode (c0 # c1 # c2 # c3 # c4 # c5 # c6 # c7 # src) =
     (let d0 = decodeMap c0; d1 = decodeMap c1; d2 = decodeMap c2; d3 = decodeMap c3;
          d4 = decodeMap c4; d5 = decodeMap c5; d6 = decodeMap c6; d7 = decodeMap c7
      in if d0 = 0xFF \<or> d1 = 0xFF \<or> d2 = 0xFF \<or> d3 = 0xFF \<or>
            d4 = 0xFF \<or> d5 = 0xFF \<or> d6 = 0xFF \<or> d7 = 0xFF
         then Inl CorruptInputError
         else (case Decode src of
                 Inl e \<Rightarrow> Inl e
               | Inr dst \<Rightarrow>
                   Inr ((push_bit 3 d0 OR drop_bit 2 d1) #
                        (push_bit 6 d1 OR push_bit 1 d2 OR drop_bit 4 d3) #
                        (push_bit 4 d3 OR drop_bit 1 d4) #
                        (push_bit 7 d4 OR push_bit 2 d5 OR drop_bit 3 d6) #
                        (push_bit 5 d6 OR d7) # dst)))"
| "Decode _ = Inr []"

text \<open>\<^verbatim>\<open>encode(dst, id)\<close> fills \<^verbatim>\<open>dst\<close> with the encoding of \<^verbatim>\<open>id\<close>; the model
  returns the text written.\<close>

definition encode :: "byte list \<Rightarrow> string" where
  "encode src = Encode src"

text \<open>\<^verbatim>\<open>decode(id, src)\<close> writes the decoded bytes into \<^verbatim>\<open>id\<close> and returns the
  library's error; the model returns the bytes written, or the error.\<close>

definition decode :: "string \<Rightarrow> error + ID" where
  "decode src = Decode src"

section \<open>Generation and accessors\<close>

text \<open>
  \<^verbatim>\<open>NewWithTimestamp(ts)\<close> reads two things besides its argument: the process-wide
  signature \<^verbatim>\<open>rtsig[0]\<close> and the value \<^verbatim>\<open>rv\<close> returned by \<^verbatim>\<open>randUint64()\<close>.
  Both are explicit arguments here. \<^verbatim>\<open>byte(x >> k)\<close> keeps the low 8 bits of the
  shifted value.
\<close>

definition NewWithTimestamp :: "byte \<Rightarrow> uint64 \<Rightarrow> uint64 \<Rightarrow> ID" where
  "NewWithTimestamp rtsig0 rv ts =
     [ucast (drop_bit 40 ts), ucast (drop_bit 32 ts), ucast (drop_bit 24 ts),
      ucast (drop_bit 16 ts), ucast (drop_bit 8 ts), ucast ts,
      rtsig0,
      ucast (drop_bit 56 rv), ucast (drop_bit 48 rv), ucast (drop_bit 40 rv),
      ucast (drop_bit 32 rv), ucast (drop_bit 24 rv), ucast (drop_bit 16 rv),
      ucast (drop_bit 8 rv), ucast rv]"

text \<open>\<^verbatim>\<open>New()\<close> passes \<^verbatim>\<open>uint64(time.Now().UnixMilli())\<close>; the clock reading is the
  argument \<open>now\<close>.\<close>

definition New :: "byte \<Rightarrow> uint64 \<Rightarrow> uint64 \<Rightarrow> ID" where
  "New rtsig0 rv now = NewWithTimestamp rtsig0 rv now"

definition IsNil :: "ID \<Rightarrow> bool" where
  "IsNil x = (x = nilID)"

definition String :: "ID \<Rightarrow> string" where
  "String x = encode x"

definition Random :: "ID \<Rightarrow> uint64" where
  "Random x =
     (let b = drop 7 x
      in push_bit 40 (ucast (b ! 0)) OR push_bit 32 (ucast (b ! 1)) OR
         push_bit 24 (ucast (b ! 2)) OR push_bit 16 (ucast (b ! 3)) OR
         push_bit 8 (ucast (b ! 4)) OR ucast (b ! 5))"

section \<open>Parsing and serialisation\<close>

text \<open>Go's built-in \<^verbatim>\<open>copy(dst, src)\<close> overwrites the first
  \<open>min (len dst) (len src)\<close> elements of \<^verbatim>\<open>dst\<close>.\<close>

definition copy :: "'a list \<Rightarrow> 'a list \<Rightarrow> 'a list" where
  "copy dst src = take (length dst) src @ drop (length src) dst"

text \<open>Functions returning \<^verbatim>\<open>(ID, error)\<close> return a pair whose second component is
  \<open>None\<close> for a \<^verbatim>\<open>nil\<close> error.\<close>

definition FromBytes :: "byte list \<Rightarrow> ID \<times> error option" where
  "FromBytes b =
     (if length b \<noteq> rawLen then (nilID, Some ErrInvalidID)
      else (copy (replicate rawLen 0) b, None))"

text \<open>
  \<^verbatim>\<open>UnmarshalText\<close> assigns \<^verbatim>\<open>*id\<close> on every path (to \<^verbatim>\<open>nilID\<close>, or through
  \<^verbatim>\<open>decode\<close>, which writes all 15 bytes for a 24-character text), so the model returns
  the final value of \<^verbatim>\<open>*id\<close> together with the error.
\<close>

definition UnmarshalText :: "string \<Rightarrow> ID \<times> error option" where
  "UnmarshalText text =
     (if length text \<noteq> encodedLen then (nilID, Some ErrInvalidID)
      else if list_ex (\<lambda>c. dec c = 0xFF) text then (nilID, Some ErrInvalidID)
      else (case decode text of
              Inl e \<Rightarrow> (nilID, Some ErrInvalidID)
            | Inr x \<Rightarrow> (x, None)))"

definition FromString :: "string \<Rightarrow> ID \<times> error option" where
  "FromString str = UnmarshalText str"

text \<open>The dynamic type of the \<^verbatim>\<open>interface{}\<close> argument of \<^verbatim>\<open>Scan\<close>: a string, a
  byte slice, \<^verbatim>\<open>nil\<close>, or a value of any other type.\<close>

datatype scan_value = VString string | VBytes string | VNil | VOther

text \<open>\<^verbatim>\<open>Scan\<close> leaves \<^verbatim>\<open>*id\<close> as it was in the \<^verbatim>\<open>default\<close> case, so the old value
  is an argument.\<close>

fun Scan :: "ID \<Rightarrow> scan_value \<Rightarrow> ID \<times> error option" where
  "Scan x (VString val) = UnmarshalText val"
| "Scan x (VBytes val) = UnmarshalText val"
| "Scan x VNil = (nilID, None)"
| "Scan x VOther = (x, Some ErrUnsupportedType)"

definition MarshalJSON :: "ID \<Rightarrow> string \<times> error option" where
  "MarshalJSON x =
     (if x = nilID then (''null'', None)
      else ([CHR 0x22] @ encode x @ [CHR 0x22], None))"

text \<open>A Go slice expression \<^verbatim>\<open>s[lo:hi]\<close> on a slice of full capacity panics unless
  \<open>0 \<le> lo \<le> hi \<le> len s\<close>.\<close>

definition slice :: "'a list \<Rightarrow> int \<Rightarrow> int \<Rightarrow> panic + 'a list" where
  "slice s lo hi =
     (if 0 \<le> lo \<and> lo \<le> hi \<and> hi \<le> int (length s)
      then Inr (take (nat (hi - lo)) (drop (nat lo) s))
      else Inl SliceBoundsOutOfRange)"

definition UnmarshalJSON :: "string \<Rightarrow> panic + (ID \<times> error option)" where
  "UnmarshalJSON text =
     (if text = ''null'' then Inr (nilID, None)
      else (case slice text 1 (int (length text) - 1) of
              Inl p \<Rightarrow> Inl p
            | Inr inner \<Rightarrow> Inr (UnmarshalText inner)))"

section \<open>Ordering\<close>

text \<open>Go's \<^verbatim>\<open>bytes.Compare\<close>: \<open>-1\<close>, \<open>0\<close> or \<open>1\<close> by the first position where the
  slices differ, a proper prefix being smaller.\<close>

fun bytes_Compare :: "byte list \<Rightarrow> byte list \<Rightarrow> int" where
  "bytes_Compare [] [] = 0"
| "bytes_Compare [] (y # ys) = - 1"
| "bytes_Compare (x # xs) [] = 1"
| "bytes_Compare (x # xs) (y # ys) =
     (if x < y then - 1 else if y < x then 1 else bytes_Compare xs ys)"

definition Compare :: "ID \<Rightarrow> ID \<Rightarrow> int" where
  "Compare x other = bytes_Compare (take 5 x) (take 5 other)"

definition Less :: "ID list \<Rightarrow> nat \<Rightarrow> nat \<Rightarrow> bool" where
  "Less s i j = (Compare (s ! i) (s ! j) < 0)"

definition Swap :: "ID list \<Rightarrow> nat \<Rightarrow> nat \<Rightarrow> ID list" where
  "Swap s i j = s[i := s ! j, j := s ! i]"

text \<open>
  \<^verbatim>\<open>Sort\<close> hands the slice to \<^verbatim>\<open>sort.Sort\<close> of Go's standard library, which sorts a
  short slice (of at most 12 elements) by insertion: for \<open>i\<close> from 1, the element at \<open>i\<close> is swapped
  downwards while \<^verbatim>\<open>Less(j, j-1)\<close>. \<open>insert_down\<close> is the inner loop and
  \<open>insertionSort\<close> the outer one. Long slices, which the library partitions first, are
  outside this model.
\<close>

fun insert_down :: "ID list \<Rightarrow> nat \<Rightarrow> ID list" where
  "insert_down s 0 = s"
| "insert_down s (Suc j) =
     (if Less s (Suc j) j then insert_down (Swap s (Suc j) j) j else s)"

definition insertionSort :: "ID list \<Rightarrow> ID list" where
  "insertionSort s = fold (\<lambda>i t. insert_down t i) [1..<length s] s"

definition Sort :: "ID list \<Rightarrow> ID list" where
  "Sort ids = insertionSort ids"

text \<open>
  The specification's wording of the order, for comparison with \<open>Compare\<close>: the
  byte-lexicographic order of two sequences, as a three-way result.
\<close>

definition spec_lexicographic :: "byte list \<Rightarrow> byte list \<Rightarrow> int" where
  "spec_lexicographic xs ys =
     (if (xs, ys) \<in> lexord {(x, y). x < y} then - 1 else if xs = ys then 0 else 1)"

text \<open>
  The value of a byte sequence read big-endian, most significant byte first: the
  specification's reading of the timestamp and random fields.
\<close>

fun be_value :: "byte list \<Rightarrow> nat" where
  "be_value [] = 0"
| "be_value (b # bs) = unat b * 256 ^ length bs + be_value bs"

section \<open>Facts about the decoding table and the codec\<close>

lemma byte31_mask: "(31::byte) = mask 5" by (simp add: mask_eq_exp_minus_1)

lemma byte_eqI:
  fixes a b :: byte
  assumes "bit a 0 = bit b 0" "bit a 1 = bit b 1" "bit a 2 = bit b 2" "bit a 3 = bit b 3"
    "bit a 4 = bit b 4" "bit a 5 = bit b 5" "bit a 6 = bit b 6" "bit a 7 = bit b 7"
  shows "a = b"
proof (rule bit_word_eqI)
  fix n assume "n < LENGTH(8)"
  then have "n \<in> {0, 1, 2, 3, 4, 5, 6, 7}"
    by auto
  with assms show "bit a n = bit b n" by auto
qed

lemma bit_times2: "bit ((a::byte) * 2) n \<longleftrightarrow> n \<noteq> 0 \<and> n < 8 \<and> bit a (n - 1)"
  using bit_double_iff [of a n] by (auto simp add: mult.commute bit_simps)

lemma nat_numeral_Suc: "Suc (Suc 0) = 2" "Suc (Suc (Suc 0)) = 3" by simp_all

lemma unpack_pack_byte0:
  fixes s0 s1 :: byte
  shows
  "push_bit 3 (drop_bit 3 s0 AND 31) OR drop_bit 2 (((drop_bit 6 s1 AND 0x1F) OR (push_bit 2 s0 AND 0x1F)) AND 31) = s0"
  unfolding byte31_mask by (rule byte_eqI) (simp_all add: bit_simps bit_times2 nat_numeral_Suc)

lemma unpack_pack_byte1:
  fixes s0 s1 s2 :: byte
  shows
  "push_bit 6 (((drop_bit 6 s1 AND 0x1F) OR (push_bit 2 s0 AND 0x1F)) AND 31) OR push_bit 1 ((drop_bit 1 s1 AND 0x1F) AND 31)
    OR drop_bit 4 (((drop_bit 4 s2 AND 0x1F) OR (push_bit 4 s1 AND 0x1F)) AND 31) = s1"
  unfolding byte31_mask by (rule byte_eqI) (simp_all add: bit_simps bit_times2 nat_numeral_Suc)

lemma unpack_pack_byte2:
  fixes s1 s2 s3 :: byte
  shows
  "push_bit 4 (((drop_bit 4 s2 AND 0x1F) OR (push_bit 4 s1 AND 0x1F)) AND 31) OR drop_bit 1 ((drop_bit 7 s3 OR (push_bit 1 s2 AND 0x1F)) AND 31) = s2"
  unfolding byte31_mask by (rule byte_eqI) (simp_all add: bit_simps bit_times2 nat_numeral_Suc)

lemma unpack_pack_byte3:
  fixes s2 s3 s4 :: byte
  shows
  "push_bit 7 ((drop_bit 7 s3 OR (push_bit 1 s2 AND 0x1F)) AND 31) OR push_bit 2 ((drop_bit 2 s3 AND 0x1F) AND 31)
     OR drop_bit 3 ((drop_bit 5 s4 OR (push_bit 3 s3 AND 0x1F)) AND 31) = s3"
  unfolding byte31_mask by (rule byte_eqI) (simp_all add: bit_simps bit_times2 nat_numeral_Suc)

lemma unpack_pack_byte4:
  fixes s3 s4 :: byte
  shows
  "push_bit 5 ((drop_bit 5 s4 OR (push_bit 3 s3 AND 0x1F)) AND 31) OR ((s4 AND 0x1F) AND 31) = s4"
  unfolding byte31_mask by (rule byte_eqI) (simp_all add: bit_simps bit_times2 nat_numeral_Suc)

lemma and31_id: "unat (d::byte) < 32 \<Longrightarrow> d AND 31 = d"
proof -
  assume "unat d < 32"
  then have "d < 2 ^ 5" by (simp add: word_less_nat_alt)
  then have "d AND mask 5 = d" by (rule less_mask_eq)
  then show ?thesis by (simp add: byte31_mask)
qed

lemma bits_hi: "unat (d::byte) < 32 \<Longrightarrow> 5 \<le> n \<Longrightarrow> \<not> bit d n"
proof -
  assume "unat d < 32" and n: "5 \<le> n"
  then have "d = d AND mask 5" by (simp add: and31_id [symmetric] byte31_mask [symmetric])
  then have "bit d n = bit (d AND mask 5) n" by simp
  with n show ?thesis by (simp add: bit_simps)
qed

lemma init_loop_other: "c \<notin> set cs \<Longrightarrow> init_loop i cs t c = t c"
  by (induction cs arbitrary: i t) auto

lemma init_loop_nth:
  "distinct cs \<Longrightarrow> j < length cs \<Longrightarrow> init_loop i cs t (cs ! j) = of_nat (i + j)"
proof (induction cs arbitrary: i j t)
  case Nil
  then show ?case by simp
next
  case (Cons c cs)
  show ?case
  proof (cases j)
    case 0
    with Cons.prems show ?thesis by (simp add: init_loop_other)
  next
    case (Suc k)
    with Cons.prems Cons.IH [of k "Suc i"] show ?thesis by simp
  qed
qed

lemma distinct_charset: "distinct charset" by (simp add: charset_def)
lemma length_charset: "length charset = 32" by (simp add: charset_def)

lemma decodeMap_nth: "j < 32 \<Longrightarrow> decodeMap (charset ! j) = of_nat j"
  using init_loop_nth [OF distinct_charset, of j 0] by (simp add: decodeMap_def init_table_def length_charset)

lemma decodeMap_invalid: "c \<notin> set charset \<Longrightarrow> decodeMap c = 0xFF"
  by (simp add: decodeMap_def init_table_def init_loop_other)

lemma unat_and31: "unat ((b::byte) AND 31) < 32"
proof -
  have "(b AND 31) \<le> 31" by (rule word_and_le1)
  then show ?thesis by (simp add: word_le_nat_alt)
qed

lemma decodeMap_enc: "decodeMap (enc_encode (b AND 31)) = b AND 31"
  using decodeMap_nth [OF unat_and31, of b] by (simp add: enc_encode_def)

lemma and31_neq_FF: "(b::byte) AND 31 \<noteq> 0xFF"
  using unat_and31 [of b] by (auto simp del: unat_and31)


lemma pack_unpack_value0:
  fixes d0 d1 :: byte
  assumes "unat d0 < 32" "unat d1 < 32"
  shows "drop_bit 3 (push_bit 3 d0 OR drop_bit 2 d1) AND 31 = d0"
   unfolding byte31_mask using assms
  by - (rule byte_eqI, simp_all add: bit_simps bit_times2 bits_hi nat_numeral_Suc)

lemma pack_unpack_value1:
  fixes d0 d1 d2 d3 :: byte
  assumes "unat d0 < 32" "unat d1 < 32" "unat d2 < 32" "unat d3 < 32"
  shows "((drop_bit 6 (push_bit 6 d1 OR push_bit 1 d2 OR drop_bit 4 d3) AND 0x1F) OR (push_bit 2 (push_bit 3 d0 OR drop_bit 2 d1) AND 0x1F)) AND 31 = d1"
   unfolding byte31_mask using assms
  by - (rule byte_eqI, simp_all add: bit_simps bit_times2 bits_hi nat_numeral_Suc)

lemma pack_unpack_value2:
  fixes d1 d2 d3 :: byte
  assumes "unat d1 < 32" "unat d2 < 32" "unat d3 < 32"
  shows "(drop_bit 1 (push_bit 6 d1 OR push_bit 1 d2 OR drop_bit 4 d3) AND 0x1F) AND 31 = d2"
   unfolding byte31_mask using assms
  by - (rule byte_eqI, simp_all add: bit_simps bit_times2 bits_hi nat_numeral_Suc)

lemma pack_unpack_value3:
  fixes d1 d2 d3 d4 :: byte
  assumes "unat d1 < 32" "unat d2 < 32" "unat d3 < 32" "unat d4 < 32"
  shows "((drop_bit 4 (push_bit 4 d3 OR drop_bit 1 d4) AND 0x1F) OR (push_bit 4 (push_bit 6 d1 OR push_bit 1 d2 OR drop_bit 4 d3) AND 0x1F)) AND 31 = d3"
   unfolding byte31_mask using assms
  by - (rule byte_eqI, simp_all add: bit_simps bit_times2 bits_hi nat_numeral_Suc)

lemma pack_unpack_value4:
  fixes d3 d4 d5 d6 :: byte
  assumes "unat d3 < 32" "unat d4 < 32" "unat d5 < 32" "unat d6 < 32"
  shows "(drop_bit 7 (push_bit 7 d4 OR push_bit 2 d5 OR drop_bit 3 d6) OR (push_bit 1 (push_bit 4 d3 OR drop_bit 1 d4) AND 0x1F)) AND 31 = d4"
   unfolding byte31_mask using assms
  by - (rule byte_eqI, simp_all add: bit_simps bit_times2 bits_hi nat_numeral_Suc)

lemma pack_unpack_value5:
  fixes d4 d5 d6 :: byte
  assumes "unat d4 < 32" "unat d5 < 32" "unat d6 < 32"
  shows "(drop_bit 2 (push_bit 7 d4 OR push_bit 2 d5 OR drop_bit 3 d6) AND 0x1F) AND 31 = d5"
   unfolding byte31_mask using assms
  by - (rule byte_eqI, simp_all add: bit_simps bit_times2 bits_hi nat_numeral_Suc)

lemma pack_unpack_value6:
  fixes d4 d5 d6 d7 :: byte
  assumes "unat d4 < 32" "unat d5 < 32" "unat d6 < 32" "unat d7 < 32"
  shows "(drop_bit 5 (push_bit 5 d6 OR d7) OR (push_bit 3 (push_bit 7 d4 OR push_bit 2 d5 OR drop_bit 3 d6) AND 0x1F)) AND 31 = d6"
   unfolding byte31_mask using assms
  by - (rule byte_eqI, simp_all add: bit_simps bit_times2 bits_hi nat_numeral_Suc)

lemma pack_unpack_value7:
  fixes d6 d7 :: byte
  assumes "unat d6 < 32" "unat d7 < 32"
  shows "((push_bit 5 d6 OR d7) AND 0x1F) AND 31 = d7"
   unfolding byte31_mask using assms
  by - (rule byte_eqI, simp_all add: bit_simps bit_times2 bits_hi nat_numeral_Suc)

lemma Decode_Encode: "5 dvd length xs \<Longrightarrow> Decode (Encode xs) = Inr xs"
proof (induction xs rule: Encode.induct)
  case (1 s0 s1 s2 s3 s4 src)
  have "length (s0 # s1 # s2 # s3 # s4 # src) = length src + 5" by simp
  with "1.prems" have "5 dvd length src + 5" by (simp only:)
  then have "5 dvd length src" by presburger
  with 1 have IH: "Decode (Encode src) = Inr src" by simp
  have "Decode (Encode (s0 # s1 # s2 # s3 # s4 # src)) = Inr (s0 # s1 # s2 # s3 # s4 # src)"
    apply (simp only: Encode.simps Let_def Decode.simps decodeMap_enc and31_neq_FF IH)
    apply (simp only: unpack_pack_byte0 unpack_pack_byte1 unpack_pack_byte2 unpack_pack_byte3
        unpack_pack_byte4 if_False simp_thms sum.case)
    done
  then show ?case .
qed (auto, presburger+)

lemma decodeMap_valid:
  assumes "c \<in> set charset"
  shows "unat (decodeMap c) < 32 \<and> enc_encode (decodeMap c) = c"
proof -
  from assms obtain j where j: "j < 32" "c = charset ! j"
    by (auto simp add: in_set_conv_nth length_charset)
  then have "decodeMap c = of_nat j" by (simp add: decodeMap_nth)
  moreover from j have "unat (of_nat j :: byte) = j" by (simp add: unat_of_nat)
  ultimately show ?thesis using j by (simp add: enc_encode_def)
qed

lemma Encode_Decode:
  "8 dvd length S \<Longrightarrow> set S \<subseteq> set charset \<Longrightarrow> \<exists>B. Decode S = Inr B \<and> Encode B = S \<and> length B * 8 = length S * 5"
proof (induction S rule: Decode.induct)
  case (1 c0 c1 c2 c3 c4 c5 c6 c7 src)
  have "length (c0 # c1 # c2 # c3 # c4 # c5 # c6 # c7 # src) = length src + 8" by simp
  with "1.prems" have "8 dvd length src + 8" by (simp only:)
  then have len: "8 dvd length src" by presburger
  from "1.prems" have sub: "set src \<subseteq> set charset" by simp
  from "1.prems" have v: "unat (decodeMap c0) < 32" "unat (decodeMap c1) < 32" "unat (decodeMap c2) < 32"
     "unat (decodeMap c3) < 32" "unat (decodeMap c4) < 32" "unat (decodeMap c5) < 32"
     "unat (decodeMap c6) < 32" "unat (decodeMap c7) < 32"
    and c: "enc_encode (decodeMap c0) = c0" "enc_encode (decodeMap c1) = c1" "enc_encode (decodeMap c2) = c2"
     "enc_encode (decodeMap c3) = c3" "enc_encode (decodeMap c4) = c4" "enc_encode (decodeMap c5) = c5"
     "enc_encode (decodeMap c6) = c6" "enc_encode (decodeMap c7) = c7"
    by (simp_all add: decodeMap_valid)
  from v have nz: "decodeMap c0 \<noteq> 0xFF" "decodeMap c1 \<noteq> 0xFF" "decodeMap c2 \<noteq> 0xFF" "decodeMap c3 \<noteq> 0xFF"
     "decodeMap c4 \<noteq> 0xFF" "decodeMap c5 \<noteq> 0xFF" "decodeMap c6 \<noteq> 0xFF" "decodeMap c7 \<noteq> 0xFF"
    by auto
  have "\<exists>B. Decode src = Inr B \<and> Encode B = src \<and> length B * 8 = length src * 5"
    using "1.IH" [OF refl refl refl refl refl refl refl refl _ len sub] nz by simp
  then obtain B where B: "Decode src = Inr B" "Encode B = src" "length B * 8 = length src * 5" by blast
  let ?d0 = "decodeMap c0" let ?d1 = "decodeMap c1" let ?d2 = "decodeMap c2" let ?d3 = "decodeMap c3"
  let ?d4 = "decodeMap c4" let ?d5 = "decodeMap c5" let ?d6 = "decodeMap c6" let ?d7 = "decodeMap c7"
  let ?R = "(push_bit 3 ?d0 OR drop_bit 2 ?d1) #
                        (push_bit 6 ?d1 OR push_bit 1 ?d2 OR drop_bit 4 ?d3) #
                        (push_bit 4 ?d3 OR drop_bit 1 ?d4) #
                        (push_bit 7 ?d4 OR push_bit 2 ?d5 OR drop_bit 3 ?d6) #
                        (push_bit 5 ?d6 OR ?d7) # B"
  have D: "Decode (c0 # c1 # c2 # c3 # c4 # c5 # c6 # c7 # src) = Inr ?R"
    by (simp only: Decode.simps Let_def nz B simp_thms if_False sum.case)
  have E: "Encode ?R = c0 # c1 # c2 # c3 # c4 # c5 # c6 # c7 # src"
    by (simp only: Encode.simps Let_def pack_unpack_value0 pack_unpack_value1
        pack_unpack_value2 pack_unpack_value3 pack_unpack_value4 pack_unpack_value5
        pack_unpack_value6 pack_unpack_value7 v c B)
  have L: "length ?R * 8 = length (c0 # c1 # c2 # c3 # c4 # c5 # c6 # c7 # src) * 5"
    using B(3) by simp
  from D E L show ?case by blast
qed (auto, presburger+)


lemma dec_eq_decodeMap: "dec = decodeMap"
  by (simp add: dec_def decodeMap_def)

lemma length_Encode: "length (Encode xs) = 8 * (length xs div 5)"
proof (induction xs rule: Encode.induct)
  case (1 s0 s1 s2 s3 s4 src)
  have "(5 + length src) div 5 = Suc (length src div 5)" by simp
  with 1 show ?case by (simp add: Let_def)
qed simp_all

section \<open>Round trip of the codec\<close>

text \<open>
  Claim C1. Decoding the encoding of any 15-byte sequence gives that sequence back, and
  every 24-character text over the alphabet decodes without error to a 15-byte sequence
  whose encoding is the text.
\<close>

theorem C1_roundtrip:
  "(length B = 15 \<longrightarrow> decode (encode B) = Inr B) \<and>
   (length S = 24 \<and> set S \<subseteq> set charset \<longrightarrow>
      (\<exists>B'. decode S = Inr B' \<and> length B' = 15 \<and> encode B' = S))"
proof (intro conjI impI)
  assume "length B = 15"
  then have "5 dvd length B" by simp
  then show "decode (encode B) = Inr B"
    by (simp add: decode_def encode_def Decode_Encode)
next
  assume S: "length S = 24 \<and> set S \<subseteq> set charset"
  then have "8 dvd length S" by simp
  with S obtain B' where B': "Decode S = Inr B'" "Encode B' = S" "length B' * 8 = length S * 5"
    using Encode_Decode [of S] by blast
  from B'(3) S have "length B' = 15" by simp
  with B' show "\<exists>B'. decode S = Inr B' \<and> length B' = 15 \<and> encode B' = S"
    by (simp add: decode_def encode_def)
qed

theorem C1_roundtrip_witness:
  "decode (encode [1, 2, 3, 4, 5, 6, 7, 8, 9, 10, 11, 12, 13, 14, 255]) =
     Inr [1, 2, 3, 4, 5, 6, 7, 8, 9, 10, 11, 12, 13, 14, 255] \<and>
   (\<exists>B'. decode ''062ekjn39b2g7mvzwsxk2mx9'' = Inr B' \<and> length B' = 15 \<and>
      encode B' = ''062ekjn39b2g7mvzwsxk2mx9'')"
  using C1_roundtrip [of "[1, 2, 3, 4, 5, 6, 7, 8, 9, 10, 11, 12, 13, 14, 255]"
      "''062ekjn39b2g7mvzwsxk2mx9''"]
  by (simp add: charset_def)

section \<open>Comparison\<close>

lemma bytes_Compare_lex: "bytes_Compare xs ys = spec_lexicographic xs ys"
  by (induction xs ys rule: bytes_Compare.induct) (auto simp add: spec_lexicographic_def)

lemma bytes_Compare_refl: "bytes_Compare xs xs = 0"
  by (induction xs) simp_all

text \<open>
  Claim C2. \<open>Compare\<close> is the byte-lexicographic comparison of the first 5 bytes of
  the two identifiers; identifiers that agree on bytes 0 to 4 compare equal whatever
  their trailing 10 bytes are.
\<close>

theorem C2_compare_prefix:
  "Compare a b = spec_lexicographic (take 5 a) (take 5 b) \<and>
   (length a = 15 \<and> length b = 15 \<and> (\<forall>i<5. a ! i = b ! i) \<longrightarrow> Compare a b = 0)"
proof (intro conjI impI)
  show "Compare a b = spec_lexicographic (take 5 a) (take 5 b)"
    by (simp add: Compare_def bytes_Compare_lex)
next
  assume h: "length a = 15 \<and> length b = 15 \<and> (\<forall>i<5. a ! i = b ! i)"
  then have "take 5 a = take 5 b"
    by (intro nth_take_lemma) simp_all
  then show "Compare a b = 0" by (simp add: Compare_def bytes_Compare_refl)
qed

theorem C2_compare_prefix_witness:
  "Compare [1, 2, 3, 4, 5, 6, 7, 8, 9, 10, 11, 12, 13, 14, 15]
           [1, 2, 3, 4, 5, 60, 70, 80, 90, 100, 110, 120, 130, 140, 150] = 0"
  using C2_compare_prefix [of "[1, 2, 3, 4, 5, 6, 7, 8, 9, 10, 11, 12, 13, 14, 15]"
      "[1, 2, 3, 4, 5, 60, 70, 80, 90, 100, 110, 120, 130, 140, 150]"]
  by (simp add: nth_Cons' less_Suc_eq numeral_eq_Suc)

section \<open>Rejection of malformed input\<close>

lemma copy_full: "length b = length dst \<Longrightarrow> copy dst b = b"
  by (simp add: copy_def)

text \<open>
  Claim C4. \<open>FromBytes\<close> fails for every input whose length is not 15 and returns
  a 15-byte input unchanged; \<open>FromString\<close> and \<open>UnmarshalText\<close> fail for every
  text whose length is not 24.
\<close>

theorem C4_length_rejection:
  "(length b \<noteq> 15 \<longrightarrow> FromBytes b = (nilID, Some ErrInvalidID)) \<and>
   (length b = 15 \<longrightarrow> FromBytes b = (b, None)) \<and>
   (length s \<noteq> 24 \<longrightarrow> FromString s = (nilID, Some ErrInvalidID) \<and>
                          UnmarshalText s = (nilID, Some ErrInvalidID))"
  by (simp add: FromBytes_def FromString_def UnmarshalText_def rawLen_def encodedLen_def copy_full)

theorem C4_length_rejection_witness:
  "FromBytes [1, 2, 3] = (nilID, Some ErrInvalidID) \<and>
   FromBytes [9, 8, 7, 6, 5, 4, 3, 2, 1, 0, 1, 2, 3, 4, 5] = ([9, 8, 7, 6, 5, 4, 3, 2, 1, 0, 1, 2, 3, 4, 5], None) \<and>
   FromString ''9p4e2pv0yj3e8a215q4g'' = (nilID, Some ErrInvalidID)"
  using C4_length_rejection [of "[1, 2, 3]" "''9p4e2pv0yj3e8a215q4g''"]
    C4_length_rejection [of "[9, 8, 7, 6, 5, 4, 3, 2, 1, 0, 1, 2, 3, 4, 5]" "''9p4e2pv0yj3e8a215q4g''"]
  by simp

lemma dec_invalid: "c \<notin> set charset \<Longrightarrow> dec c = 0xFF"
  by (simp add: dec_eq_decodeMap decodeMap_invalid)

lemma dec_FF_iff: "dec c = 0xFF \<longleftrightarrow> c \<notin> set charset"
proof
  assume "dec c = 0xFF"
  show "c \<notin> set charset"
  proof
    assume "c \<in> set charset"
    then have "unat (decodeMap c) < 32" by (simp add: decodeMap_valid)
    with \<open>dec c = 0xFF\<close> show False by (simp add: dec_eq_decodeMap)
  qed
qed (rule dec_invalid)

lemma list_ex_dec: "list_ex (\<lambda>c. dec c = 0xFF) s \<longleftrightarrow> \<not> set s \<subseteq> set charset"
  by (auto simp add: list_ex_iff dec_FF_iff)

lemma UnmarshalText_invalid:
  "\<not> (length s = 24 \<and> set s \<subseteq> set charset) \<Longrightarrow> UnmarshalText s = (nilID, Some ErrInvalidID)"
  by (auto simp add: UnmarshalText_def encodedLen_def list_ex_dec)

lemma UnmarshalText_valid:
  assumes "length s = 24" "set s \<subseteq> set charset"
  shows "\<exists>x. UnmarshalText s = (x, None) \<and> length x = 15 \<and> encode x = s"
proof -
  from assms have "8 dvd length s" by simp
  with assms obtain B where B: "Decode s = Inr B" "Encode B = s" "length B * 8 = length s * 5"
    using Encode_Decode [of s] by blast
  from B(3) assms have "length B = 15" by simp
  with B assms show ?thesis
    by (simp add: UnmarshalText_def encodedLen_def list_ex_dec decode_def encode_def)
qed

text \<open>
  Claim C5. A 24-character text with a character outside the alphabet, at any position,
  is rejected with \<open>ErrInvalidID\<close>.
\<close>

theorem C5_character_rejection:
  "length s = 24 \<Longrightarrow> i < 24 \<Longrightarrow> s ! i \<notin> set charset \<Longrightarrow>
     UnmarshalText s = (nilID, Some ErrInvalidID) \<and> FromString s = (nilID, Some ErrInvalidID)"
proof -
  assume len: "length s = 24" and i: "i < 24" and bad: "s ! i \<notin> set charset"
  from len i have "s ! i \<in> set s" by simp
  moreover from bad have "dec (s ! i) = 0xFF" by (rule dec_invalid)
  ultimately have "list_ex (\<lambda>c. dec c = 0xFF) s"
    unfolding list_ex_iff by blast
  with len show ?thesis
    by (simp add: UnmarshalText_def FromString_def encodedLen_def)
qed

theorem C5_character_rejection_witness:
  "FromString ''ce0cnw0s25j1ksgsilou0000'' = (nilID, Some ErrInvalidID)"
  using C5_character_rejection [of "''ce0cnw0s25j1ksgsilou0000''" 16]
  by (simp add: charset_def)

section \<open>Chronological order of generated identifiers\<close>

lemma be_value_less: "be_value bs < 256 ^ length bs"
proof (induction bs)
  case Nil
  then show ?case by simp
next
  case (Cons b bs)
  have "unat b < 2 ^ LENGTH(8)" by (rule unsigned_less)
  then have "unat b \<le> 255" by simp
  define p :: nat where "p = 256 ^ length bs"
  from \<open>unat b \<le> 255\<close> have "unat b * p \<le> 255 * p" by (rule mult_le_mono1)
  moreover from Cons have "be_value bs < p" by (simp add: p_def)
  ultimately have "unat b * p + be_value bs < 256 * p" by linarith
  then show ?case by (simp add: p_def)
qed

lemma bytes_Compare_be:
  "length xs = length ys \<Longrightarrow>
     bytes_Compare xs ys =
       (if be_value xs < be_value ys then - 1 else if be_value xs = be_value ys then 0 else 1)"
proof (induction xs ys rule: bytes_Compare.induct)
  case (4 x xs y ys)
  then have len: "length xs = length ys" by simp
  let ?p = "(256::nat) ^ length ys"
  have bx: "be_value xs < ?p" using be_value_less [of xs] len by simp
  have bys: "be_value ys < ?p" using be_value_less [of ys] by simp
  show ?case
  proof (cases "x < y")
    case True
    then have "Suc (unat x) \<le> unat y" by (simp add: word_less_nat_alt)
    then have "Suc (unat x) * ?p \<le> unat y * ?p" by (rule mult_le_mono1)
    with bx have "unat x * ?p + be_value xs < unat y * ?p + be_value ys" by simp
    with True len show ?thesis by simp
  next
    case False
    note nlt = this
    show ?thesis
    proof (cases "y < x")
      case True
      then have "Suc (unat y) \<le> unat x" by (simp add: word_less_nat_alt)
      then have "Suc (unat y) * ?p \<le> unat x * ?p" by (rule mult_le_mono1)
      with bys have "unat y * ?p + be_value ys < unat x * ?p + be_value xs" by simp
      with True nlt len show ?thesis by simp
    next
      case False
      with nlt have "x = y" by simp
      with 4 len show ?thesis by simp
    qed
  qed
qed simp_all

lemma Sort_three:
  assumes "Compare a c < 0" "Compare b c < 0" "\<not> Compare b a < 0"
  shows "Sort [c, a, b] = [a, b, c]"
proof -
  have "[1..<length [c, a, b]] = [Suc 0, Suc (Suc 0)]" by (simp add: upt_rec)
  then show ?thesis using assms
    by (simp add: Sort_def insertionSort_def Less_def Swap_def)
qed

lemma unat_byte_of: "unat (ucast (drop_bit k (w :: uint64)) :: byte) = unat w div 2 ^ k mod 256"
proof -
  have "unat (ucast (drop_bit k w) :: byte) = unat (drop_bit k w) mod 2 ^ 8"
    by (simp add: unsigned_ucast_eq take_bit_eq_mod)
  also have "unat (drop_bit k w) = drop_bit k (unat w)" by (rule unat_drop_bit_eq)
  also have "\<dots> = unat w div 2 ^ k" by (rule drop_bit_eq_div)
  finally show ?thesis by simp
qed

lemma unat_byte_of0: "unat (ucast (w :: uint64) :: byte) = unat w mod 256"
  using unat_byte_of [of 0 w] by simp

lemma digits5:
  fixes n :: nat
  shows "(n div 2 ^ 40 mod 256) * 256 ^ 4 + (n div 2 ^ 32 mod 256) * 256 ^ 3 +
         (n div 2 ^ 24 mod 256) * 256 ^ 2 + (n div 2 ^ 16 mod 256) * 256 + n div 2 ^ 8 mod 256
         = n mod 2 ^ 48 div 2 ^ 8"
proof -
  define m where "m = n div 2 ^ 8"
  have d: "n div 2 ^ 40 = m div 2 ^ 32" "n div 2 ^ 32 = m div 2 ^ 24" "n div 2 ^ 24 = m div 2 ^ 16"
     "n div 2 ^ 16 = m div 2 ^ 8"
    by (simp_all add: m_def div_mult2_eq [symmetric])
  have r: "n mod 2 ^ 48 div 2 ^ 8 = m mod 2 ^ 40"
    using mod_mult2_eq [of n "2 ^ 8" "2 ^ 40"] by (simp add: m_def)
  have s1: "m mod 2 ^ 40 = 2 ^ 32 * (m div 2 ^ 32 mod 256) + m mod 2 ^ 32"
    using mod_mult2_eq [of m "2 ^ 32" 256] by simp
  have s2: "m mod 2 ^ 32 = 2 ^ 24 * (m div 2 ^ 24 mod 256) + m mod 2 ^ 24"
    using mod_mult2_eq [of m "2 ^ 24" 256] by simp
  have s3: "m mod 2 ^ 24 = 2 ^ 16 * (m div 2 ^ 16 mod 256) + m mod 2 ^ 16"
    using mod_mult2_eq [of m "2 ^ 16" 256] by simp
  have s4: "m mod 2 ^ 16 = 2 ^ 8 * (m div 2 ^ 8 mod 256) + m mod 2 ^ 8"
    using mod_mult2_eq [of m "2 ^ 8" 256] by simp
  show ?thesis
    unfolding d r s1 s2 s3 s4 by (simp add: m_def)
qed

lemma prefix_value:
  "be_value (take 5 (NewWithTimestamp sig rv ts)) = unat (drop_bit 8 (take_bit 48 ts))"
proof -
  have "unat (drop_bit 8 (take_bit 48 ts)) = drop_bit 8 (unat (take_bit 48 ts))"
    by (rule unat_drop_bit_eq)
  also have "\<dots> = unat (take_bit 48 ts) div 2 ^ 8" by (rule drop_bit_eq_div)
  also have "unat (take_bit 48 ts) = take_bit 48 (unat ts)" by (simp add: unsigned_take_bit_eq)
  also have "\<dots> = unat ts mod 2 ^ 48" by (rule take_bit_eq_mod)
  finally have v: "unat (drop_bit 8 (take_bit 48 ts)) = unat ts mod 2 ^ 48 div 2 ^ 8" .
  have "be_value (take 5 (NewWithTimestamp sig rv ts)) =
      (unat ts div 2 ^ 40 mod 256) * 256 ^ 4 + (unat ts div 2 ^ 32 mod 256) * 256 ^ 3 +
         (unat ts div 2 ^ 24 mod 256) * 256 ^ 2 + (unat ts div 2 ^ 16 mod 256) * 256 +
         unat ts div 2 ^ 8 mod 256"
    by (simp add: NewWithTimestamp_def unat_byte_of)
  then show ?thesis by (simp only: digits5 v)
qed

lemma Compare_be:
  "Compare (NewWithTimestamp s1 r1 t1) (NewWithTimestamp s2 r2 t2) =
     (if drop_bit 8 (take_bit 48 t1) < drop_bit 8 (take_bit 48 t2) then - 1
      else if drop_bit 8 (take_bit 48 t1) = drop_bit 8 (take_bit 48 t2) then 0 else 1)"
proof -
  have "length (take 5 (NewWithTimestamp s1 r1 t1)) = length (take 5 (NewWithTimestamp s2 r2 t2))"
    by (simp add: NewWithTimestamp_def)
  then show ?thesis
    unfolding Compare_def
    by (simp only: bytes_Compare_be prefix_value word_less_nat_alt word_unat_eq_iff)
qed

lemma drop8_mono:
  fixes a b :: uint64
  assumes "a < b" "drop_bit 8 a \<noteq> drop_bit 8 b"
  shows "drop_bit 8 a < drop_bit 8 b"
proof -
  have u: "unat (drop_bit 8 x) = unat x div 2 ^ 8" for x :: uint64
    using unat_drop_bit_eq [of 8 x] by (simp add: drop_bit_eq_div)
  from assms(1) have "unat a div 2 ^ 8 \<le> unat b div 2 ^ 8"
    by (simp add: word_less_nat_alt div_le_mono)
  then have "drop_bit 8 a \<le> drop_bit 8 b" by (simp only: word_le_nat_alt u)
  with assms(2) show ?thesis by simp
qed

text \<open>
  Claim C3, as the claim states it, fails: \<open>NewWithTimestamp\<close> keeps the low 48 bits
  of the timestamp only, so a later timestamp at or beyond \<open>2 ^ 48\<close> wraps around and
  its identifier compares smaller. Here \<open>256 < 2 ^ 48\<close> as supplied timestamps,
  the truncated timestamps differ in their leading 40 bits, and yet the identifier of
  the smaller timestamp compares greater.
\<close>

theorem C3_counterexample:
  "(256 :: uint64) < 2 ^ 48 \<and>
   drop_bit 8 (take_bit 48 (256 :: uint64)) \<noteq> drop_bit 8 (take_bit 48 (2 ^ 48 :: uint64)) \<and>
   Compare (NewWithTimestamp 0 0 256) (NewWithTimestamp 0 0 (2 ^ 48)) = 1"
  by code_simp

text \<open>
  Claim C3, amended. For identifiers generated from timestamps whose truncations to 48
  bits are strictly increasing and differ in their leading 40 bits, \<open>Compare\<close>
  reports strictly increasing order, whatever the signature and random bytes; three such
  identifiers given to \<open>Sort\<close> in the order third, first, second come out in
  the order first, second, third.
\<close>

theorem C3_chronological_order:
  assumes "take_bit 48 ta < take_bit 48 tb"
    and "drop_bit 8 (take_bit 48 ta) \<noteq> drop_bit 8 (take_bit 48 tb)"
    and "take_bit 48 tb < take_bit 48 tc"
    and "drop_bit 8 (take_bit 48 tb) \<noteq> drop_bit 8 (take_bit 48 tc)"
  shows "Compare (NewWithTimestamp sa ra ta) (NewWithTimestamp sb rb tb) = - 1 \<and>
         Compare (NewWithTimestamp sb rb tb) (NewWithTimestamp sa ra ta) = 1 \<and>
         Sort [NewWithTimestamp sc rc tc, NewWithTimestamp sa ra ta, NewWithTimestamp sb rb tb] =
           [NewWithTimestamp sa ra ta, NewWithTimestamp sb rb tb, NewWithTimestamp sc rc tc]"
proof -
  have a: "drop_bit 8 (take_bit 48 ta) < drop_bit 8 (take_bit 48 tb)"
    using assms(1,2) by (rule drop8_mono)
  have b: "drop_bit 8 (take_bit 48 tb) < drop_bit 8 (take_bit 48 tc)"
    using assms(3,4) by (rule drop8_mono)
  from a b have c: "drop_bit 8 (take_bit 48 ta) < drop_bit 8 (take_bit 48 tc)" by simp
  have 12: "Compare (NewWithTimestamp sa ra ta) (NewWithTimestamp sb rb tb) = - 1"
    using a by (simp add: Compare_be)
  have 21: "Compare (NewWithTimestamp sb rb tb) (NewWithTimestamp sa ra ta) = 1"
    using a by (auto simp add: Compare_be)
  have 13: "Compare (NewWithTimestamp sa ra ta) (NewWithTimestamp sc rc tc) < 0"
    using c by (simp add: Compare_be)
  have 23: "Compare (NewWithTimestamp sb rb tb) (NewWithTimestamp sc rc tc) < 0"
    using b by (simp add: Compare_be)
  have "\<not> Compare (NewWithTimestamp sb rb tb) (NewWithTimestamp sa ra ta) < 0"
    using 21 by simp
  with 13 23 have "Sort [NewWithTimestamp sc rc tc, NewWithTimestamp sa ra ta, NewWithTimestamp sb rb tb] =
           [NewWithTimestamp sa ra ta, NewWithTimestamp sb rb tb, NewWithTimestamp sc rc tc]"
    by (rule Sort_three)
  with 12 21 show ?thesis by simp
qed

theorem C3_chronological_order_witness:
  "take_bit 48 (1670369682250 :: uint64) < take_bit 48 1670369682506 \<and>
   drop_bit 8 (take_bit 48 (1670369682250 :: uint64)) \<noteq> drop_bit 8 (take_bit 48 1670369682506) \<and>
   take_bit 48 (1670369682506 :: uint64) < take_bit 48 1670369682762 \<and>
   drop_bit 8 (take_bit 48 (1670369682506 :: uint64)) \<noteq> drop_bit 8 (take_bit 48 1670369682762) \<and>
   Compare (NewWithTimestamp 0xc5 111 1670369682250) (NewWithTimestamp 0xc5 7 1670369682506) = - 1 \<and>
   Sort [NewWithTimestamp 0xc5 5 1670369682762, NewWithTimestamp 0xc5 111 1670369682250,
         NewWithTimestamp 0xc5 7 1670369682506] =
     [NewWithTimestamp 0xc5 111 1670369682250, NewWithTimestamp 0xc5 7 1670369682506,
      NewWithTimestamp 0xc5 5 1670369682762]"
  using C3_chronological_order [where ta = 1670369682250 and tb = 1670369682506 and tc = 1670369682762
      and sa = "0xc5" and sb = "0xc5" and sc = "0xc5" and ra = 111 and rb = 7 and rc = 5]
  by simp

section \<open>The random field\<close>

text \<open>
  Claim C7. The random accessor is to return exactly the value drawn at generation.
  The code does not do so: \<open>NewWithTimestamp\<close> stores all 8 bytes of the 64-bit
  value it draws at offsets 7 to 14, under a comment that announces a 6 byte random
  number, while \<open>Random\<close>, documented as returning the trailing random number
  component, reads the 6 bytes at offsets 7 to 12 only, with the expression that
  \<^verbatim>\<open>Timestamp\<close> uses for its own 6 bytes. For the drawn value 1, which fits in 48
  bits, the stored bytes are 00 00 00 00 00 00 00 01 and \<open>Random\<close> returns 0, for
  \<open>NewWithTimestamp\<close> and for \<open>New\<close> alike.
\<close>

theorem C7_random_divergence:
  "(1 :: uint64) < 2 ^ 48 \<and>
   drop 7 (NewWithTimestamp 0 1 0) = [0, 0, 0, 0, 0, 0, 0, 1] \<and>
   Random (NewWithTimestamp 0 1 0) = 0 \<and>
   Random (New 0 1 0) = 0"
  by code_simp

section \<open>The concrete vector\<close>

text \<open>
  Claim C6, as the claim states it, fails: the text \<^verbatim>\<open>9p4e2pv0yj3e8a215q4g\<close> has 20
  characters, so \<open>FromString\<close> rejects it and returns the nil identifier, whose first
  12 bytes are not the expected ones.
\<close>

theorem C6_counterexample:
  "FromString ''9p4e2pv0yj3e8a215q4g'' = (nilID, Some ErrInvalidID) \<and>
   take 12 (fst (FromString ''9p4e2pv0yj3e8a215q4g'')) \<noteq>
     [0x4d, 0x88, 0xe1, 0x5b, 0x60, 0xf4, 0x86, 0xe4, 0x28, 0x41, 0x2d, 0xc9]"
  by code_simp

text \<open>
  Claim C6, amended. The 15-byte sequence 4d 88 e1 5b 60 f4 86 e4 28 41 2d c9 00 00 00
  is what \<open>FromString\<close> returns for the 24-character text
  \<^verbatim>\<open>9p4e2pv0yj3e8a215q4g0000\<close>, and encoding that sequence reproduces this text.
\<close>

theorem C6_vector_24:
  "FromString ''9p4e2pv0yj3e8a215q4g0000'' =
     ([0x4d, 0x88, 0xe1, 0x5b, 0x60, 0xf4, 0x86, 0xe4, 0x28, 0x41, 0x2d, 0xc9, 0, 0, 0], None) \<and>
   String [0x4d, 0x88, 0xe1, 0x5b, 0x60, 0xf4, 0x86, 0xe4, 0x28, 0x41, 0x2d, 0xc9, 0, 0, 0] =
     ''9p4e2pv0yj3e8a215q4g0000''"
  by code_simp

section \<open>The nil identifier and JSON\<close>

lemma enc_encode_in_charset: "enc_encode (b AND 31) \<in> set charset"
  using unat_and31 [of b] by (simp add: enc_encode_def length_charset)

lemma set_Encode: "set (Encode xs) \<subseteq> set charset"
  by (induction xs rule: Encode.induct) (simp_all add: Let_def enc_encode_in_charset)

lemma IsNil_iff: "length x = 15 \<Longrightarrow> IsNil x \<longleftrightarrow> (\<forall>b\<in>set x. b = 0)"
proof
  assume "IsNil x"
  then show "\<forall>b\<in>set x. b = 0" by (simp add: IsNil_def nilID_def)
next
  assume "length x = 15" and "\<forall>b\<in>set x. b = 0"
  then have "x = replicate 15 0" by (intro replicate_eqI) simp_all
  then show "IsNil x" by (simp add: IsNil_def nilID_def rawLen_def)
qed

lemma MarshalJSON_nil: "MarshalJSON nilID = (''null'', None)"
  by (simp add: MarshalJSON_def)

lemma UnmarshalJSON_null: "UnmarshalJSON ''null'' = Inr (nilID, None)"
  by (simp add: UnmarshalJSON_def)

lemma MarshalJSON_quoted:
  "length x = 15 \<Longrightarrow> \<not> IsNil x \<Longrightarrow>
     MarshalJSON x = ([CHR 0x22] @ String x @ [CHR 0x22], None) \<and>
     length (String x) = 24 \<and> set (String x) \<subseteq> set charset"
  by (simp add: MarshalJSON_def IsNil_def String_def encode_def length_Encode set_Encode)

text \<open>
  Claim C8. \<open>IsNil\<close> holds exactly when all 15 bytes are zero; \<open>MarshalJSON\<close>
  gives the unquoted token \<^verbatim>\<open>null\<close> for the nil identifier and the 24-character text
  between double quotes for any other; \<open>UnmarshalJSON\<close> of the token \<^verbatim>\<open>null\<close>
  gives an identifier for which \<open>IsNil\<close> holds.
\<close>

theorem C8_nil_handling:
  "(length x = 15 \<longrightarrow> (IsNil x \<longleftrightarrow> (\<forall>b\<in>set x. b = 0))) \<and>
   MarshalJSON nilID = (''null'', None) \<and>
   (length x = 15 \<and> \<not> IsNil x \<longrightarrow>
      MarshalJSON x = ([CHR 0x22] @ String x @ [CHR 0x22], None) \<and>
      length (String x) = 24 \<and> set (String x) \<subseteq> set charset) \<and>
   (\<exists>y. UnmarshalJSON ''null'' = Inr (y, None) \<and> IsNil y)"
proof (intro conjI impI)
  show "\<exists>y. UnmarshalJSON ''null'' = Inr (y, None) \<and> IsNil y"
    by (simp add: UnmarshalJSON_null IsNil_def)
qed (simp_all add: IsNil_iff MarshalJSON_nil MarshalJSON_quoted)

theorem C8_nil_handling_witness:
  "IsNil [0, 0, 0, 0, 0, 0, 0, 0, 0, 0, 0, 0, 0, 0, 0] \<and>
   \<not> IsNil [0, 0, 0, 0, 0, 0, 0, 0, 0, 0, 0, 0, 0, 0, 1] \<and>
   MarshalJSON [0, 0, 0, 0, 0, 0, 0, 0, 0, 0, 0, 0, 0, 0, 1] =
      ([CHR 0x22] @ String [0, 0, 0, 0, 0, 0, 0, 0, 0, 0, 0, 0, 0, 0, 1] @ [CHR 0x22], None)"
proof -
  have a: "IsNil [0, 0, 0, 0, 0, 0, 0, 0, 0, 0, 0, 0, 0, 0, 0]"
    using C8_nil_handling [of "[0, 0, 0, 0, 0, 0, 0, 0, 0, 0, 0, 0, 0, 0, 0]"] by simp
  have b: "\<not> IsNil [0, 0, 0, 0, 0, 0, 0, 0, 0, 0, 0, 0, 0, 0, 1]"
    using C8_nil_handling [of "[0, 0, 0, 0, 0, 0, 0, 0, 0, 0, 0, 0, 0, 0, 1]"] by simp
  with C8_nil_handling [of "[0, 0, 0, 0, 0, 0, 0, 0, 0, 0, 0, 0, 0, 0, 1]"]
  have "MarshalJSON [0, 0, 0, 0, 0, 0, 0, 0, 0, 0, 0, 0, 0, 0, 1] =
      ([CHR 0x22] @ String [0, 0, 0, 0, 0, 0, 0, 0, 0, 0, 0, 0, 0, 0, 1] @ [CHR 0x22], None)"
    by simp
  with a b show ?thesis by (simp only: simp_thms)
qed

text \<open>
  Claim C10. \<open>UnmarshalJSON\<close> returns for the token \<^verbatim>\<open>null\<close> and for every input
  of length at least 2; for every other input the slice expression is out of range and
  the call panics.
\<close>

theorem C10_unmarshal_json_panics:
  "(text = ''null'' \<or> 2 \<le> length text \<longrightarrow> (\<exists>r. UnmarshalJSON text = Inr r)) \<and>
   (\<not> (text = ''null'' \<or> 2 \<le> length text) \<longrightarrow> UnmarshalJSON text = Inl SliceBoundsOutOfRange)"
  by (auto simp add: UnmarshalJSON_def slice_def)

theorem C10_unmarshal_json_panics_witness:
  "UnmarshalJSON '''' = Inl SliceBoundsOutOfRange \<and>
   UnmarshalJSON ''x'' = Inl SliceBoundsOutOfRange \<and>
   (\<exists>r. UnmarshalJSON ''null'' = Inr r) \<and> (\<exists>r. UnmarshalJSON [CHR 0x22, CHR 0x22] = Inr r)"
  using C10_unmarshal_json_panics [of "''''"] C10_unmarshal_json_panics [of "''x''"]
    C10_unmarshal_json_panics [of "''null''"] C10_unmarshal_json_panics [of "[CHR 0x22, CHR 0x22]"]
  by simp

section \<open>Propagation of parse errors\<close>

lemma encode_nilID: "encode nilID = ''000000000000000000000000''"
  by code_simp

text \<open>
  Claim C9, as the claim states it, fails in its last part: the text of 24 zero
  characters is neither absent nor null, and it decodes to the nil identifier without
  error, being the encoding of the nil identifier.
\<close>

theorem C9_counterexample:
  "FromString ''000000000000000000000000'' = (nilID, None)"
  by code_simp

text \<open>
  Claim C9, amended. \<open>FromString\<close> succeeds exactly on the 24-character texts over
  the alphabet and otherwise returns \<open>ErrInvalidID\<close>; a successful result is the
  identifier whose text is the input, so the nil identifier is returned without error
  only for the text of 24 zero characters. \<open>FromBytes\<close> succeeds exactly on 15-byte
  inputs, returning the input, and otherwise returns \<open>ErrInvalidID\<close>. \<open>Scan\<close>
  behaves as \<open>FromString\<close> on strings and byte slices, returns the nil identifier
  without error for \<^verbatim>\<open>nil\<close>, and returns an error, leaving the identifier as it
  was, for any other type.
\<close>

theorem C9_parse_errors:
  "(snd (FromString s) = None \<longleftrightarrow> length s = 24 \<and> set s \<subseteq> set charset) \<and>
   (snd (FromString s) \<noteq> None \<longrightarrow> FromString s = (nilID, Some ErrInvalidID)) \<and>
   (FromString s = (x, None) \<longrightarrow> length x = 15 \<and> String x = s) \<and>
   (FromString s = (nilID, None) \<longrightarrow> s = ''000000000000000000000000'') \<and>
   (snd (FromBytes b) = None \<longleftrightarrow> length b = 15) \<and>
   (snd (FromBytes b) \<noteq> None \<longrightarrow> FromBytes b = (nilID, Some ErrInvalidID)) \<and>
   (FromBytes b = (y, None) \<longrightarrow> y = b) \<and>
   Scan old (VString s) = FromString s \<and> Scan old (VBytes s) = FromString s \<and>
   Scan old VNil = (nilID, None) \<and> Scan old VOther = (old, Some ErrUnsupportedType)"
proof -
  have fs: "(snd (FromString s) = None \<longleftrightarrow> length s = 24 \<and> set s \<subseteq> set charset) \<and>
   (snd (FromString s) \<noteq> None \<longrightarrow> FromString s = (nilID, Some ErrInvalidID)) \<and>
   (FromString s = (x, None) \<longrightarrow> length x = 15 \<and> String x = s)"
  proof (cases "length s = 24 \<and> set s \<subseteq> set charset")
    case True
    then obtain z where "UnmarshalText s = (z, None)" "length z = 15" "encode z = s"
      using UnmarshalText_valid [of s] by blast
    with True show ?thesis by (auto simp add: FromString_def String_def)
  next
    case False
    then have "UnmarshalText s = (nilID, Some ErrInvalidID)" by (rule UnmarshalText_invalid)
    with False show ?thesis by (simp add: FromString_def)
  qed
  have nil: "FromString s = (nilID, None) \<longrightarrow> s = ''000000000000000000000000''"
  proof
    assume "FromString s = (nilID, None)"
    then have "UnmarshalText s = (nilID, None)" by (simp add: FromString_def)
    then have "length s = 24 \<and> set s \<subseteq> set charset"
      using UnmarshalText_invalid [of s] by auto
    then obtain z where "UnmarshalText s = (z, None)" "encode z = s"
      using UnmarshalText_valid [of s] by blast
    with \<open>UnmarshalText s = (nilID, None)\<close> have "encode nilID = s" by simp
    then show "s = ''000000000000000000000000''" by (simp add: encode_nilID)
  qed
  have fb: "(snd (FromBytes b) = None \<longleftrightarrow> length b = 15) \<and>
   (snd (FromBytes b) \<noteq> None \<longrightarrow> FromBytes b = (nilID, Some ErrInvalidID)) \<and>
   (FromBytes b = (y, None) \<longrightarrow> y = b)"
    by (auto simp add: FromBytes_def rawLen_def copy_def)
  have sc: "Scan old (VString s) = FromString s \<and> Scan old (VBytes s) = FromString s \<and>
   Scan old VNil = (nilID, None) \<and> Scan old VOther = (old, Some ErrUnsupportedType)"
    by (simp add: FromString_def)
  from fs nil fb sc show ?thesis by blast
qed

theorem C9_parse_errors_witness:
  "FromString ''ce0cnw0s25j1ksgsilou0000'' = (nilID, Some ErrInvalidID) \<and>
   snd (FromString ''062ekjn39b2g7mvzwsxk2mx9'') = None \<and>
   String (fst (FromString ''062ekjn39b2g7mvzwsxk2mx9'')) = ''062ekjn39b2g7mvzwsxk2mx9'' \<and>
   FromBytes [1, 2, 3] = (nilID, Some ErrInvalidID)"
proof -
  have a: "FromString ''ce0cnw0s25j1ksgsilou0000'' = (nilID, Some ErrInvalidID)"
    using C9_parse_errors [of "''ce0cnw0s25j1ksgsilou0000''"]
    by (simp add: charset_def)
  have b: "snd (FromString ''062ekjn39b2g7mvzwsxk2mx9'') = None"
    using C9_parse_errors [of "''062ekjn39b2g7mvzwsxk2mx9''"]
    by (simp add: charset_def)
  then obtain z where z: "FromString ''062ekjn39b2g7mvzwsxk2mx9'' = (z, None)"
    by (cases "FromString ''062ekjn39b2g7mvzwsxk2mx9''") simp
  with C9_parse_errors [of "''062ekjn39b2g7mvzwsxk2mx9''" z]
  have c: "String (fst (FromString ''062ekjn39b2g7mvzwsxk2mx9'')) = ''062ekjn39b2g7mvzwsxk2mx9''"
    by simp
  have d: "FromBytes [1, 2, 3] = (nilID, Some ErrInvalidID)"
    using C9_parse_errors [where b = "[1, 2, 3]"] by simp
  from a b c d show ?thesis by (simp only: simp_thms)
qed

end
